theory Spec2Isabelle
  imports Main "HOL-Library.Word"
begin

unbundle bit_operations_syntax

section \<open>Touch calculator for the STM32F429 Discovery: data model\<close>

text \<open>
  The development follows \<^verbatim>\<open>User/main.c\<close>. Every function of the source that the
  properties below talk about is translated one to one; the names are those of the
  source. Record fields called \<^verbatim>\<open>x\<close>, \<^verbatim>\<open>y\<close>, \<^verbatim>\<open>w\<close>, \<^verbatim>\<open>h\<close>,
  \<^verbatim>\<open>label\<close>, \<^verbatim>\<open>type\<close> and \<^verbatim>\<open>pressed\<close> in C carry a prefix here, because a
  record field is a global constant in HOL.
\<close>

subsection \<open>Doubles\<close>

text \<open>
  A \<^verbatim>\<open>double\<close> is its IEEE 754 binary64 bit pattern: sign (bit 63), biased exponent
  (bits 62 to 52) and fraction (bits 51 to 0). The comparison \<^verbatim>\<open>==\<close> is defined on the
  pattern. The arithmetic of the platform and the C library's \<^verbatim>\<open>atof\<close> are not part
  of the source: they are the fields of a record \<open>fpu\<close> that every function using them
  takes as its first argument.
\<close>

type_synonym double = "64 word"

definition pos_zero :: double where
  "pos_zero = 0"

definition neg_zero :: double where
  "neg_zero = 0x8000000000000000"

definition is_nan :: "double \<Rightarrow> bool" where
  "is_nan d \<longleftrightarrow> drop_bit 52 d AND 0x7FF = 0x7FF \<and> d AND 0xFFFFFFFFFFFFF \<noteq> 0"

definition is_zero :: "double \<Rightarrow> bool" where
  "is_zero d \<longleftrightarrow> d AND 0x7FFFFFFFFFFFFFFF = 0"

definition double_eq :: "double \<Rightarrow> double \<Rightarrow> bool" where
  "double_eq a b \<longleftrightarrow> \<not> is_nan a \<and> \<not> is_nan b \<and> (a = b \<or> (is_zero a \<and> is_zero b))"

record fpu =
  fadd :: "double \<Rightarrow> double \<Rightarrow> double"
  fsub :: "double \<Rightarrow> double \<Rightarrow> double"
  fmul :: "double \<Rightarrow> double \<Rightarrow> double"
  fdiv :: "double \<Rightarrow> double \<Rightarrow> double"
  atof :: "string \<Rightarrow> double"

subsection \<open>Types of the source\<close>

datatype CalculatorButtonType =
  CALC_BUTTON_DIGIT | CALC_BUTTON_OPERATOR | CALC_BUTTON_CLEAR | CALC_BUTTON_EQUALS

record CalculatorButton =
  btn_label :: string
  btn_x :: "16 word"
  btn_y :: "16 word"
  btn_w :: "16 word"
  btn_h :: "16 word"
  btn_type :: CalculatorButtonType

text \<open>
  The field \<open>input\<close> is the whole array \<^verbatim>\<open>char input[INPUT_BUFFER_SIZE]\<close>, terminator
  and the bytes after it included.
\<close>

record CalculatorState =
  accumulator :: double
  currentOperator :: char
  hasAccumulator :: bool
  error :: bool
  input :: "char list"

record TouchStatus =
  touch_x :: "16 word"
  touch_y :: "16 word"
  touch_pressed :: bool

definition INPUT_BUFFER_SIZE :: nat where
  "INPUT_BUFFER_SIZE = 17"

definition NUL :: char where
  "NUL = CHR 0x00"

subsection \<open>C strings in the input array\<close>

text \<open>
  \<open>c_str\<close> is the string an array holds: the bytes before the first NUL. \<open>strlen\<close>
  is its length and \<open>strchr\<close> tells whether a character occurs in it (the source only
  compares the result of \<^verbatim>\<open>strchr\<close> with \<^verbatim>\<open>NULL\<close>). An array that holds no NUL
  at all makes the C functions read past its end; \<open>terminated\<close> excludes it.
\<close>

definition c_str :: "char list \<Rightarrow> string" where
  "c_str buf = takeWhile (\<lambda>c. c \<noteq> NUL) buf"

definition strlen :: "char list \<Rightarrow> nat" where
  "strlen buf = length (c_str buf)"

definition strchr :: "char list \<Rightarrow> char \<Rightarrow> bool" where
  "strchr buf c \<longleftrightarrow> c \<in> set (c_str buf)"

definition terminated :: "char list \<Rightarrow> bool" where
  "terminated buf \<longleftrightarrow> length buf = INPUT_BUFFER_SIZE \<and> NUL \<in> set buf"

section \<open>The calculator engine\<close>

text \<open>
  \<open>call\<close> records, in order, the calls a function makes to
  \<^verbatim>\<open>Calculator_ApplyOperation\<close>, \<^verbatim>\<open>Calculator_HandleButton\<close>,
  \<^verbatim>\<open>Calculator_DrawButton\<close> and \<^verbatim>\<open>Calculator_DrawDisplay\<close>, with their arguments;
  buttons are given by their index in the table.
\<close>

datatype call =
  ApplyOperation double double char
| HandleButton nat
| DrawButton nat bool
| DrawDisplay CalculatorState TouchStatus

definition Calculator_Reset :: "CalculatorState \<Rightarrow> CalculatorState" where
  "Calculator_Reset state =
     state\<lparr>accumulator := pos_zero,
           currentOperator := NUL,
           hasAccumulator := False,
           error := False,
           input := replicate INPUT_BUFFER_SIZE NUL\<rparr>"

definition Calculator_InputHasDecimal :: "CalculatorState \<Rightarrow> bool" where
  "Calculator_InputHasDecimal state = strchr (input state) (CHR ''.'')"

definition Calculator_ClearInput :: "CalculatorState \<Rightarrow> CalculatorState" where
  "Calculator_ClearInput state = state\<lparr>input := replicate INPUT_BUFFER_SIZE NUL\<rparr>"

definition Calculator_AppendInput :: "CalculatorState \<Rightarrow> char \<Rightarrow> CalculatorState" where
  "Calculator_AppendInput state val =
     (let len = strlen (input state) in
      if len + 1 \<ge> INPUT_BUFFER_SIZE then state
      else if val = CHR ''.'' \<and> Calculator_InputHasDecimal state then state
      else state\<lparr>input := (input state)[len := val, len + 1 := NUL]\<rparr>)"

definition Calculator_ParseInput :: "fpu \<Rightarrow> CalculatorState \<Rightarrow> double" where
  "Calculator_ParseInput F state =
     (if input state ! 0 = NUL then pos_zero else atof F (c_str (input state)))"

text \<open>
  \<^verbatim>\<open>Calculator_ApplyOperation\<close> returns its result and writes through \<^verbatim>\<open>bool *error\<close>;
  the model takes the flag's value and returns the result with the flag's new value.
\<close>

definition Calculator_ApplyOperation ::
  "fpu \<Rightarrow> double \<Rightarrow> double \<Rightarrow> char \<Rightarrow> bool \<Rightarrow> double \<times> bool" where
  "Calculator_ApplyOperation F a b op err =
     (if op = CHR ''+'' then (fadd F a b, err)
      else if op = CHR ''-'' then (fsub F a b, err)
      else if op = CHR ''*'' then (fmul F a b, err)
      else if op = CHR ''/'' then
        (if double_eq b pos_zero then (pos_zero, True) else (fdiv F a b, err))
      else (b, err))"

text \<open>
  Both call sites of \<^verbatim>\<open>Calculator_ApplyOperation\<close> are the same statement,
  \<^verbatim>\<open>state->accumulator = Calculator_ApplyOperation(state->accumulator, value,
  state->currentOperator, &state->error)\<close>; \<open>apply_pending\<close> is that statement.
\<close>

definition apply_pending :: "fpu \<Rightarrow> CalculatorState \<Rightarrow> double \<Rightarrow> CalculatorState \<times> call list" where
  "apply_pending F state val =
     (let (r, e) = Calculator_ApplyOperation F (accumulator state) val
                     (currentOperator state) (error state)
      in (state\<lparr>accumulator := r, error := e\<rparr>,
          [ApplyOperation (accumulator state) val (currentOperator state)]))"

definition Calculator_HandleOperator ::
  "fpu \<Rightarrow> CalculatorState \<Rightarrow> char \<Rightarrow> CalculatorState \<times> call list" where
  "Calculator_HandleOperator F state operatorChar =
     (let val = Calculator_ParseInput F state;
          (s1, calls) =
            (if \<not> hasAccumulator state then
               (state\<lparr>accumulator := val, hasAccumulator := True\<rparr>, [])
             else if currentOperator state \<noteq> NUL \<or> input state ! 0 \<noteq> NUL then
               apply_pending F state val
             else (state, []))
      in ((Calculator_ClearInput s1)\<lparr>currentOperator := operatorChar\<rparr>, calls))"

definition Calculator_HandleEquals ::
  "fpu \<Rightarrow> CalculatorState \<Rightarrow> CalculatorState \<times> call list" where
  "Calculator_HandleEquals F state =
     (if \<not> hasAccumulator state \<and> input state ! 0 \<noteq> NUL then
        (Calculator_ClearInput
           (state\<lparr>accumulator := Calculator_ParseInput F state,
                  hasAccumulator := True,
                  currentOperator := NUL\<rparr>), [])
      else if hasAccumulator state \<and> currentOperator state \<noteq> NUL then
        (let val = Calculator_ParseInput F state;
             (s1, calls) = apply_pending F state val
         in (Calculator_ClearInput (s1\<lparr>currentOperator := NUL\<rparr>), calls))
      else (state, []))"

definition label0 :: "CalculatorButton \<Rightarrow> char" where
  "label0 button = (case btn_label button of [] \<Rightarrow> NUL | c # _ \<Rightarrow> c)"

definition Calculator_HandleButton ::
  "fpu \<Rightarrow> CalculatorState \<Rightarrow> CalculatorButton \<Rightarrow> CalculatorState \<times> call list" where
  "Calculator_HandleButton F state button =
     (if error state \<and> btn_type button \<noteq> CALC_BUTTON_CLEAR then (state, [])
      else case btn_type button of
        CALC_BUTTON_DIGIT \<Rightarrow> (Calculator_AppendInput state (label0 button), [])
      | CALC_BUTTON_OPERATOR \<Rightarrow> Calculator_HandleOperator F state (label0 button)
      | CALC_BUTTON_CLEAR \<Rightarrow> (Calculator_Reset state, [])
      | CALC_BUTTON_EQUALS \<Rightarrow> Calculator_HandleEquals F state)"

definition initial_state :: CalculatorState where
  "initial_state =
     \<lparr>accumulator = pos_zero, currentOperator = NUL, hasAccumulator = False,
      error = False, input = replicate INPUT_BUFFER_SIZE NUL\<rparr>"

section \<open>The button table and the hit test\<close>

text \<open>
  \<^verbatim>\<open>ILI9341_WIDTH\<close> comes from the display driver's header, which is not part of the
  source: the table takes it as the parameter \<open>W\<close>. The macros are computed in
  \<^verbatim>\<open>int\<close>, with C's division (towards zero), and stored in \<^verbatim>\<open>uint16_t\<close> fields.
\<close>

definition c_div :: "int \<Rightarrow> int \<Rightarrow> int" where
  "c_div a b = sgn a * sgn b * (\<bar>a\<bar> div \<bar>b\<bar>)"

definition DISPLAY_HEIGHT :: int where "DISPLAY_HEIGHT = 80"
definition BUTTON_COLUMNS :: int where "BUTTON_COLUMNS = 4"
definition BUTTON_SPACING :: int where "BUTTON_SPACING = 4"
definition BUTTON_START_X :: int where "BUTTON_START_X = 6"
definition BUTTON_START_Y :: int where "BUTTON_START_Y = DISPLAY_HEIGHT + 10"
definition BUTTON_HEIGHT :: int where "BUTTON_HEIGHT = 55"

definition BUTTON_WIDTH :: "int \<Rightarrow> int" where
  "BUTTON_WIDTH W =
     c_div (W - (BUTTON_START_X * 2) - (BUTTON_SPACING * (BUTTON_COLUMNS - 1))) BUTTON_COLUMNS"

definition key :: "int \<Rightarrow> string \<Rightarrow> int \<Rightarrow> int \<Rightarrow> CalculatorButtonType \<Rightarrow> CalculatorButton" where
  "key W lbl col row ty =
     \<lparr>btn_label = lbl,
      btn_x = word_of_int (BUTTON_START_X + col * (BUTTON_WIDTH W + BUTTON_SPACING)),
      btn_y = word_of_int (BUTTON_START_Y + row * (BUTTON_HEIGHT + BUTTON_SPACING)),
      btn_w = word_of_int (BUTTON_WIDTH W),
      btn_h = word_of_int BUTTON_HEIGHT,
      btn_type = ty\<rparr>"

definition buttons :: "int \<Rightarrow> CalculatorButton list" where
  "buttons W =
     [key W ''7'' 0 0 CALC_BUTTON_DIGIT,
      key W ''8'' 1 0 CALC_BUTTON_DIGIT,
      key W ''9'' 2 0 CALC_BUTTON_DIGIT,
      key W ''/'' 3 0 CALC_BUTTON_OPERATOR,
      key W ''4'' 0 1 CALC_BUTTON_DIGIT,
      key W ''5'' 1 1 CALC_BUTTON_DIGIT,
      key W ''6'' 2 1 CALC_BUTTON_DIGIT,
      key W ''*'' 3 1 CALC_BUTTON_OPERATOR,
      key W ''1'' 0 2 CALC_BUTTON_DIGIT,
      key W ''2'' 1 2 CALC_BUTTON_DIGIT,
      key W ''3'' 2 2 CALC_BUTTON_DIGIT,
      key W ''-'' 3 2 CALC_BUTTON_OPERATOR,
      key W ''0'' 0 3 CALC_BUTTON_DIGIT,
      key W ''.'' 1 3 CALC_BUTTON_DIGIT,
      key W ''C'' 2 3 CALC_BUTTON_CLEAR,
      key W ''+'' 3 3 CALC_BUTTON_OPERATOR,
      \<lparr>btn_label = ''='',
       btn_x = word_of_int BUTTON_START_X,
       btn_y = word_of_int (BUTTON_START_Y + 4 * (BUTTON_HEIGHT + BUTTON_SPACING)),
       btn_w = word_of_int (BUTTON_WIDTH W * 4 + BUTTON_SPACING * 3),
       btn_h = word_of_int BUTTON_HEIGHT,
       btn_type = CALC_BUTTON_EQUALS\<rparr>]"

text \<open>
  The comparisons of the hit test are made in \<^verbatim>\<open>int\<close>, after the integer promotion of
  the \<^verbatim>\<open>uint16_t\<close> operands, so the sums do not wrap.
\<close>

definition inside :: "CalculatorButton \<Rightarrow> 16 word \<Rightarrow> 16 word \<Rightarrow> bool" where
  "inside btn px py \<longleftrightarrow>
     uint px \<ge> uint (btn_x btn) \<and> uint px \<le> uint (btn_x btn) + uint (btn_w btn) \<and>
     uint py \<ge> uint (btn_y btn) \<and> uint py \<le> uint (btn_y btn) + uint (btn_h btn)"

text \<open>
  The loop of \<^verbatim>\<open>Calculator_FindButton\<close>, on the buttons from index \<open>i\<close> on. The
  result is an \<^verbatim>\<open>int8_t\<close>; the table has 17 entries, so the cast of the index does not
  change it and the result is an \<open>int\<close> here.
\<close>

fun find_from :: "CalculatorButton list \<Rightarrow> nat \<Rightarrow> 16 word \<Rightarrow> 16 word \<Rightarrow> int" where
  "find_from [] i px py = - 1"
| "find_from (btn # rest) i px py =
     (if inside btn px py then int i else find_from rest (Suc i) px py)"

definition Calculator_FindButton :: "int \<Rightarrow> 16 word \<Rightarrow> 16 word \<Rightarrow> int" where
  "Calculator_FindButton W px py = find_from (buttons W) 0 px py"

section \<open>The control loop of main\<close>

text \<open>
  \<open>TouchRead\<close> is what one call of \<^verbatim>\<open>TM_STMPE811_ReadTouch\<close> reports: whether its
  result is \<^verbatim>\<open>TM_STMPE811_State_Pressed\<close>, and the coordinates it leaves in
  \<^verbatim>\<open>touchData\<close>. \<open>LoopState\<close> holds the local variables of \<^verbatim>\<open>main\<close> that live
  across iterations.
\<close>

record TouchRead =
  read_pressed :: bool
  read_x :: "16 word"
  read_y :: "16 word"

record LoopState =
  calc_state :: CalculatorState
  lastButton :: int
  touchStatus :: TouchStatus
  lastRenderedStatus :: TouchStatus
  stateDirty :: bool

definition released_status :: TouchStatus where
  "released_status = \<lparr>touch_x = 0, touch_y = 0, touch_pressed = False\<rparr>"

definition main_init :: "CalculatorState \<Rightarrow> LoopState" where
  "main_init uninitialised =
     \<lparr>calc_state = Calculator_Reset uninitialised,
      lastButton = - 1,
      touchStatus = released_status,
      lastRenderedStatus = released_status,
      stateDirty = True\<rparr>"

text \<open>The first half of the loop body: reading the touch and dispatching it.\<close>

definition dispatch :: "int \<Rightarrow> fpu \<Rightarrow> LoopState \<Rightarrow> TouchRead \<Rightarrow> LoopState \<times> call list" where
  "dispatch W F ls rd =
     (if read_pressed rd then
        (let ls1 = ls\<lparr>touchStatus :=
                        \<lparr>touch_x = read_x rd, touch_y = read_y rd, touch_pressed = True\<rparr>\<rparr>;
             pressed = Calculator_FindButton W (read_x rd) (read_y rd)
         in if pressed \<ge> 0 \<and> pressed \<noteq> lastButton ls1 then
              (let (s', calls) =
                     Calculator_HandleButton F (calc_state ls1) (buttons W ! nat pressed)
               in (ls1\<lparr>calc_state := s', stateDirty := True, lastButton := pressed\<rparr>,
                   HandleButton (nat pressed) # calls @ [DrawButton (nat pressed) True]))
            else (ls1, []))
      else
        (let ls1 = ls\<lparr>touchStatus := released_status\<rparr>
         in if lastButton ls1 \<ge> 0 then
              (ls1\<lparr>lastButton := - 1\<rparr>, [DrawButton (nat (lastButton ls1)) False])
            else (ls1, [])))"

text \<open>The second half: the display is redrawn when something visible changed.\<close>

definition render_gate :: "LoopState \<Rightarrow> LoopState \<times> call list" where
  "render_gate ls =
     (if stateDirty ls \<or>
         touch_pressed (touchStatus ls) \<noteq> touch_pressed (lastRenderedStatus ls) \<or>
         touch_x (touchStatus ls) \<noteq> touch_x (lastRenderedStatus ls) \<or>
         touch_y (touchStatus ls) \<noteq> touch_y (lastRenderedStatus ls)
      then (ls\<lparr>lastRenderedStatus := touchStatus ls, stateDirty := False\<rparr>,
            [DrawDisplay (calc_state ls) (touchStatus ls)])
      else (ls, []))"

definition loop_body :: "int \<Rightarrow> fpu \<Rightarrow> LoopState \<Rightarrow> TouchRead \<Rightarrow> LoopState \<times> call list" where
  "loop_body W F ls rd =
     (let (ls1, c1) = dispatch W F ls rd;
          (ls2, c2) = render_gate ls1
      in (ls2, c1 @ c2))"

text \<open>
  The loop never ends; \<open>run_loop\<close> runs it for as many iterations as there are touch
  reads in its argument, and returns the calls of all of them.
\<close>

fun run_loop :: "int \<Rightarrow> fpu \<Rightarrow> LoopState \<Rightarrow> TouchRead list \<Rightarrow> LoopState \<times> call list" where
  "run_loop W F ls [] = (ls, [])"
| "run_loop W F ls (rd # rds) =
     (let (ls1, c1) = loop_body W F ls rd;
          (ls2, c2) = run_loop W F ls1 rds
      in (ls2, c1 @ c2))"

text \<open>The buttons that a list of calls activated, in order.\<close>

definition activations :: "call list \<Rightarrow> nat list" where
  "activations calls = concat (map (\<lambda>c. case c of HandleButton i \<Rightarrow> [i] | _ \<Rightarrow> []) calls)"

section \<open>Sequences of button presses\<close>

text \<open>
  \<open>press_all\<close> feeds the buttons of a list to \<^verbatim>\<open>Calculator_HandleButton\<close> one after
  the other; \<open>press_keys\<close> does so for buttons of the table, given by index.
\<close>

fun press_all :: "fpu \<Rightarrow> CalculatorState \<Rightarrow> CalculatorButton list \<Rightarrow> CalculatorState \<times> call list" where
  "press_all F s [] = (s, [])"
| "press_all F s (b # bs) =
     (let (s1, c1) = Calculator_HandleButton F s b;
          (s2, c2) = press_all F s1 bs
      in (s2, c1 @ c2))"

definition press_keys :: "int \<Rightarrow> fpu \<Rightarrow> CalculatorState \<Rightarrow> nat list \<Rightarrow> CalculatorState \<times> call list" where
  "press_keys W F s ks = press_all F s (map (\<lambda>k. buttons W ! k) ks)"

definition operators :: "char set" where
  "operators = {CHR ''+'', CHR ''-'', CHR ''*'', CHR ''/''}"

definition applied_operators :: "call list \<Rightarrow> char list" where
  "applied_operators calls =
     concat (map (\<lambda>c. case c of ApplyOperation a b op \<Rightarrow> [op] | _ \<Rightarrow> []) calls)"

section \<open>An arithmetic for small whole numbers\<close>

text \<open>
  \<open>whole_fpu\<close> is the arithmetic used to evaluate examples. On operands that are whole
  numbers from 0 to \<open>2^53 - 1\<close> and whose exact result is again such a number, binary64
  arithmetic is exact, and \<open>whole_fpu\<close> returns that result; \<open>atof\<close> is given for
  strings of decimal digits of such numbers. Everywhere else the record returns a quiet
  NaN, which is not what the platform does: examples stay inside the range.
\<close>

definition quiet_nan :: double where
  "quiet_nan = 0x7FF8000000000000"

text \<open>\<open>top_bit k n\<close> is the largest \<open>j \<le> k\<close> with \<open>2^j \<le> n\<close>, or 0.\<close>

fun top_bit :: "nat \<Rightarrow> int \<Rightarrow> nat" where
  "top_bit 0 n = 0"
| "top_bit (Suc k) n = (if 2 ^ Suc k \<le> n then Suc k else top_bit k n)"

definition double_of_whole :: "int \<Rightarrow> double" where
  "double_of_whole n =
     (if n = 0 then pos_zero
      else if n < 0 \<or> n \<ge> 2 ^ 53 then quiet_nan
      else (let k = top_bit 52 n
            in word_of_int ((1023 + int k) * 2 ^ 52 + (n - 2 ^ k) * 2 ^ (52 - k))))"

definition whole_of_double :: "double \<Rightarrow> int option" where
  "whole_of_double d =
     (let e = uint d div 2 ^ 52;
          f = uint d mod 2 ^ 52
      in if d = 0 then Some 0
         else if 1023 \<le> e \<and> e \<le> 1075 \<and> (2 ^ 52 + f) mod 2 ^ nat (1075 - e) = 0
           then Some ((2 ^ 52 + f) div 2 ^ nat (1075 - e))
         else None)"

definition whole_op :: "(int \<Rightarrow> int \<Rightarrow> int option) \<Rightarrow> double \<Rightarrow> double \<Rightarrow> double" where
  "whole_op f a b =
     (case (whole_of_double a, whole_of_double b) of
        (Some m, Some n) \<Rightarrow> (case f m n of Some r \<Rightarrow> double_of_whole r | None \<Rightarrow> quiet_nan)
      | _ \<Rightarrow> quiet_nan)"

definition digit_value :: "char \<Rightarrow> int option" where
  "digit_value c =
     (let n = (of_char c :: int)
      in if of_char (CHR ''0'') \<le> n \<and> n \<le> of_char (CHR ''9'')
         then Some (n - of_char (CHR ''0'')) else None)"

fun decimal :: "int \<Rightarrow> string \<Rightarrow> int option" where
  "decimal acc [] = Some acc"
| "decimal acc (c # cs) =
     (case digit_value c of Some d \<Rightarrow> decimal (10 * acc + d) cs | None \<Rightarrow> None)"

definition whole_fpu :: fpu where
  "whole_fpu =
     \<lparr>fadd = whole_op (\<lambda>m n. Some (m + n)),
      fsub = whole_op (\<lambda>m n. if n \<le> m then Some (m - n) else None),
      fmul = whole_op (\<lambda>m n. Some (m * n)),
      fdiv = whole_op (\<lambda>m n. if n \<noteq> 0 \<and> m mod n = 0 then Some (m div n) else None),
      atof = (\<lambda>str. case decimal 0 str of
                       Some n \<Rightarrow> if str = [] then quiet_nan else double_of_whole n
                     | None \<Rightarrow> quiet_nan)\<rparr>"

section \<open>Notions used in the statements\<close>

text \<open>
  \<open>rejects s c\<close> is the condition under which the input buffer refuses a character:
  it holds 16 characters already, or \<open>c\<close> is a second decimal point.
\<close>

definition rejects :: "CalculatorState \<Rightarrow> char \<Rightarrow> bool" where
  "rejects s c \<longleftrightarrow>
     strlen (input s) = 16 \<or> (c = CHR ''.'' \<and> CHR ''.'' \<in> set (c_str (input s)))"

definition decimal_points :: "CalculatorState \<Rightarrow> nat" where
  "decimal_points s = count_list (c_str (input s)) (CHR ''.'')"

definition input_ok :: "CalculatorState \<Rightarrow> bool" where
  "input_ok s \<longleftrightarrow> terminated (input s) \<and> decimal_points s \<le> 1"

definition after_operator :: "fpu \<Rightarrow> CalculatorState \<Rightarrow> char \<Rightarrow> CalculatorState" where
  "after_operator F s op = fst (Calculator_HandleOperator F s op)"

definition op_ok :: "CalculatorState \<Rightarrow> bool" where
  "op_ok s \<longleftrightarrow> currentOperator s \<in> insert NUL operators"

definition good_key :: "CalculatorButton \<Rightarrow> bool" where
  "good_key b \<longleftrightarrow> (btn_type b = CALC_BUTTON_OPERATOR \<longrightarrow> label0 b \<in> operators)"

text \<open>
  \<open>width_ok\<close> bounds the display width so that every entry of the table fits its
  \<^verbatim>\<open>uint16_t\<close> field. \<open>col_span\<close> and \<open>row_span\<close> are the pixel ranges of a column
  and of a row of the keypad, for a button width \<open>B\<close>.
\<close>

definition width_ok :: "int \<Rightarrow> bool" where
  "width_ok W \<longleftrightarrow> 24 \<le> W \<and> W \<le> 65535"

definition col_span :: "int \<Rightarrow> int \<Rightarrow> int \<Rightarrow> bool" where
  "col_span B c p \<longleftrightarrow> 6 + c * (B + 4) \<le> p \<and> p \<le> 6 + c * (B + 4) + B"

definition row_span :: "int \<Rightarrow> int \<Rightarrow> bool" where
  "row_span r p \<longleftrightarrow> 90 + r * 59 \<le> p \<and> p \<le> 90 + r * 59 + 55"

text \<open>
  A touch read is \<open>on_button W i\<close> when it is pressed inside the rectangle of button
  \<open>i\<close>, and \<open>off_buttons W\<close> when it is pressed and the hit test finds no button.
\<close>

definition pressed_status :: "TouchRead \<Rightarrow> TouchStatus" where
  "pressed_status rd = \<lparr>touch_x = read_x rd, touch_y = read_y rd, touch_pressed = True\<rparr>"

definition on_button :: "int \<Rightarrow> nat \<Rightarrow> TouchRead \<Rightarrow> bool" where
  "on_button W i rd \<longleftrightarrow> read_pressed rd \<and> inside (buttons W ! i) (read_x rd) (read_y rd)"

definition off_buttons :: "int \<Rightarrow> TouchRead \<Rightarrow> bool" where
  "off_buttons W rd \<longleftrightarrow>
     read_pressed rd \<and> Calculator_FindButton W (read_x rd) (read_y rd) = - 1"

text \<open>Touch reads and states of the examples, on a display 240 pixels wide.\<close>

definition touch_at :: "int \<Rightarrow> int \<Rightarrow> TouchRead" where
  "touch_at px py = \<lparr>read_pressed = True, read_x = word_of_int px, read_y = word_of_int py\<rparr>"

definition no_touch :: TouchRead where
  "no_touch = \<lparr>read_pressed = False, read_x = 0, read_y = 0\<rparr>"

definition typed :: "nat list \<Rightarrow> CalculatorState" where
  "typed ks = fst (press_keys 240 whole_fpu initial_state ks)"

definition holding_7 :: LoopState where
  "holding_7 = fst (loop_body 240 whole_fpu (main_init initial_state) (touch_at 10 100))"

section \<open>Division by zero\<close>

lemma mod_zero_below_double:
  fixes x m :: int
  assumes "0 \<le> x" "x < 2 * m"
  shows "x mod m = 0 \<longleftrightarrow> x = 0 \<or> x = m"
proof (cases "x < m")
  case True
  with assms show ?thesis by (simp add: mod_pos_pos_trivial)
next
  case False
  have "x mod m = (x - m) mod m" by simp
  also from False assms have "\<dots> = x - m" by (intro mod_pos_pos_trivial) simp_all
  finally have "x mod m = x - m" .
  with False assms show ?thesis by auto
qed

lemma mask63: "(0x7FFFFFFFFFFFFFFF :: 64 word) = mask 63"
  by (simp add: mask_eq_exp_minus_1)

text \<open>The patterns with all bits but the sign clear are \<open>+0\<close> and \<open>-0\<close>.\<close>

lemma is_zero_iff: "is_zero d \<longleftrightarrow> d = pos_zero \<or> d = neg_zero"
proof -
  have "is_zero d \<longleftrightarrow> take_bit 63 d = 0"
    by (simp add: is_zero_def mask63 take_bit_eq_mask)
  also have "\<dots> \<longleftrightarrow> uint d mod 2 ^ 63 = 0"
  proof -
    have "uint (take_bit 63 d) = take_bit 63 (uint d)"
      by (rule unsigned_take_bit_eq)
    also have "\<dots> = uint d mod 2 ^ 63"
      by (rule take_bit_eq_mod)
    finally have "uint (take_bit 63 d) = uint d mod 2 ^ 63" .
    then show ?thesis
      by (simp add: word_uint_eq_iff)
  qed
  also have "\<dots> \<longleftrightarrow> uint d = 0 \<or> uint d = 2 ^ 63"
  proof -
    have "0 \<le> uint d" "uint d < 2 * 2 ^ 63" using uint_bounded [of d] by simp_all
    then show ?thesis by (rule mod_zero_below_double)
  qed
  also have "\<dots> \<longleftrightarrow> d = pos_zero \<or> d = neg_zero"
    by (simp add: word_uint_eq_iff pos_zero_def neg_zero_def)
  finally show ?thesis .
qed

lemma zero_not_nan: "is_zero d \<Longrightarrow> \<not> is_nan d"
  by (auto simp: is_zero_iff is_nan_def pos_zero_def neg_zero_def)

lemma double_eq_zero: "double_eq b pos_zero \<longleftrightarrow> b = pos_zero \<or> b = neg_zero"
  using zero_not_nan [of b] zero_not_nan [of pos_zero] is_zero_iff [of b] is_zero_iff [of pos_zero]
  by (auto simp: double_eq_def)

text \<open>
  Claim C5. For all doubles \<open>a\<close> and \<open>b\<close>, applying \<open>/\<close> with \<open>b\<close> equal to zero,
  \<open>+0\<close> and \<open>-0\<close> alike, sets the error flag and returns \<open>0.0\<close>; with any other \<open>b\<close>
  (a NaN is not equal to zero) it returns the quotient \<open>a / b\<close> of the platform and leaves
  the error flag as it was.
\<close>

theorem C5_division_by_zero:
  "Calculator_ApplyOperation F a b (CHR ''/'') err =
     (if b = pos_zero \<or> b = neg_zero then (pos_zero, True) else (fdiv F a b, err))"
  by (simp add: Calculator_ApplyOperation_def double_eq_zero)

text \<open>
  The theorem at \<open>6 / -0\<close>, which raises the error, and at \<open>6 / 3\<close>, which is \<open>2\<close>
  and leaves the flag off.
\<close>

theorem C5_division_by_zero_witness:
  "Calculator_ApplyOperation whole_fpu 0x4018000000000000 0x8000000000000000 (CHR ''/'') False
     = (0, True) \<and>
   Calculator_ApplyOperation whole_fpu 0x4018000000000000 0x4008000000000000 (CHR ''/'') False
     = (0x4000000000000000, False)"
proof -
  have q: "fdiv whole_fpu 0x4018000000000000 0x4008000000000000 = 0x4000000000000000"
    by code_simp
  show ?thesis
    using C5_division_by_zero [of whole_fpu "0x4018000000000000" "0x8000000000000000" False]
      C5_division_by_zero [of whole_fpu "0x4018000000000000" "0x4008000000000000" False] q
    by (simp add: pos_zero_def neg_zero_def)
qed

section \<open>Reset\<close>

text \<open>
  Claim C6. For every calculator state, reachable or not, clearing produces exactly the
  initial state: accumulator \<open>0.0\<close>, no accumulator committed, no pending operator, error
  flag off, and an input array of zero bytes, which holds the empty string.
\<close>

theorem C6_reset_yields_initial_state:
  "Calculator_Reset state = initial_state
   \<and> accumulator (Calculator_Reset state) = pos_zero
   \<and> hasAccumulator (Calculator_Reset state) = False
   \<and> currentOperator (Calculator_Reset state) = NUL
   \<and> error (Calculator_Reset state) = False
   \<and> c_str (input (Calculator_Reset state)) = []"
  by (simp add: Calculator_Reset_def initial_state_def c_str_def INPUT_BUFFER_SIZE_def)

section \<open>The error flag blocks the keys\<close>

text \<open>
  Claim C4. In every calculator state whose error flag is set, a digit key, an operator
  key and the equals key leave the whole state unchanged (and apply no operation); the
  clear key is the only one that modifies the state: it resets it to the initial state.
\<close>

theorem C4_error_blocks_all_but_clear:
  assumes "error s"
  shows "(btn_type b \<noteq> CALC_BUTTON_CLEAR \<longrightarrow> Calculator_HandleButton F s b = (s, [])) \<and>
         (btn_type b = CALC_BUTTON_CLEAR \<longrightarrow>
            fst (Calculator_HandleButton F s b) = initial_state \<and>
            fst (Calculator_HandleButton F s b) \<noteq> s)"
proof -
  have "Calculator_Reset s \<noteq> s"
  proof
    assume "Calculator_Reset s = s"
    then have "error (Calculator_Reset s) = error s" by simp
    with assms show False by (simp add: Calculator_Reset_def)
  qed
  moreover have "Calculator_Reset s = initial_state"
    by (simp add: Calculator_Reset_def initial_state_def)
  ultimately show ?thesis
    using assms by (simp add: Calculator_HandleButton_def)
qed

text \<open>
  The keys \<open>5\<close>, \<open>/\<close>, \<open>0\<close>, \<open>=\<close> raise the error; the key \<open>2\<close> pressed next is
  ignored, and the clear key resets.
\<close>

theorem C4_error_blocks_all_but_clear_witness:
  "error (typed [5, 3, 12, 16]) \<and>
   Calculator_HandleButton whole_fpu (typed [5, 3, 12, 16]) (buttons 240 ! 9)
     = (typed [5, 3, 12, 16], []) \<and>
   fst (Calculator_HandleButton whole_fpu (typed [5, 3, 12, 16]) (buttons 240 ! 14))
     = initial_state"
proof -
  have e: "error (typed [5, 3, 12, 16])" by code_simp
  have d: "btn_type (buttons 240 ! 9) \<noteq> CALC_BUTTON_CLEAR" by code_simp
  have c: "btn_type (buttons 240 ! 14) = CALC_BUTTON_CLEAR" by code_simp
  from C4_error_blocks_all_but_clear [OF e, of "buttons 240 ! 9" whole_fpu]
    C4_error_blocks_all_but_clear [OF e, of "buttons 240 ! 14" whole_fpu] e d c
  show ?thesis by simp
qed

section \<open>The input buffer\<close>

lemma strlen_less: "NUL \<in> set buf \<Longrightarrow> strlen buf < length buf"
proof -
  assume a: "NUL \<in> set buf"
  have "takeWhile (\<lambda>c. c \<noteq> NUL) buf \<noteq> buf"
    using a by auto
  then have "length (takeWhile (\<lambda>c. c \<noteq> NUL) buf) \<noteq> length buf"
    by (metis takeWhile_eq_take take_all_iff length_takeWhile_le le_antisym order_refl)
  then show ?thesis
    using length_takeWhile_le [of "\<lambda>c. c \<noteq> NUL" buf] by (simp add: strlen_def c_str_def)
qed

text \<open>With room for two more bytes, the array is its string and at least two bytes.\<close>

lemma buf_split:
  assumes "strlen buf + 1 < length buf"
  obtains a b rest where "buf = c_str buf @ a # b # rest"
proof -
  let ?d = "dropWhile (\<lambda>c. c \<noteq> NUL) buf"
  have eq: "buf = c_str buf @ ?d" by (simp add: c_str_def)
  have "length buf = strlen buf + length ?d"
    unfolding strlen_def by (subst eq) (simp only: length_append)
  with assms have "2 \<le> length ?d" by simp
  then obtain a b rest where "?d = a # b # rest"
    by (cases ?d; cases "tl ?d") auto
  with eq have "buf = c_str buf @ a # b # rest" by simp
  then show thesis by (rule that)
qed

lemma update_at_end:
  assumes "strlen buf + 1 < length buf"
  obtains rest where
    "buf[strlen buf := c, strlen buf + 1 := NUL] = c_str buf @ c # NUL # rest"
proof -
  from assms obtain a b rest where eq: "buf = c_str buf @ a # b # rest"
    by (rule buf_split)
  have "buf[strlen buf := c, strlen buf + 1 := NUL]
        = (c_str buf @ a # b # rest)[strlen buf := c, strlen buf + 1 := NUL]"
    using eq by simp
  also have "\<dots> = c_str buf @ c # NUL # rest"
    by (simp add: strlen_def list_update_append)
  finally show thesis by (rule that)
qed

lemma c_str_no_NUL: "\<forall>x \<in> set (c_str buf). x \<noteq> NUL"
  by (auto simp: c_str_def dest: set_takeWhileD)

lemma c_str_append:
  assumes "strlen buf + 1 < length buf"
  shows "c_str (buf[strlen buf := c, strlen buf + 1 := NUL]) =
           (if c = NUL then c_str buf else c_str buf @ [c])"
proof -
  from assms obtain rest where
    eq: "buf[strlen buf := c, strlen buf + 1 := NUL] = c_str buf @ c # NUL # rest"
    by (rule update_at_end)
  have "takeWhile (\<lambda>c. c \<noteq> NUL) (c_str buf @ c # NUL # rest) =
          c_str buf @ takeWhile (\<lambda>c. c \<noteq> NUL) (c # NUL # rest)"
    using c_str_no_NUL [of buf] by (intro takeWhile_append2) simp
  then show ?thesis
    unfolding eq by (simp add: c_str_def)
qed

lemma terminated_append:
  assumes "terminated buf" "strlen buf + 1 < length buf"
  shows "terminated (buf[strlen buf := c, strlen buf + 1 := NUL])"
proof -
  have "NUL \<in> set (buf[strlen buf := c, strlen buf + 1 := NUL])"
    using assms(2) by (simp add: set_update_memI)
  with assms(1) show ?thesis by (simp add: terminated_def)
qed

lemma AppendInput_cases:
  assumes "terminated (input s)"
  shows "(rejects s c \<longrightarrow> Calculator_AppendInput s c = s) \<and>
         (\<not> rejects s c \<longrightarrow>
            Calculator_AppendInput s c =
              s\<lparr>input := (input s)[strlen (input s) := c, strlen (input s) + 1 := NUL]\<rparr> \<and>
            c_str (input (Calculator_AppendInput s c)) =
              (if c = NUL then c_str (input s) else c_str (input s) @ [c])) \<and>
         terminated (input (Calculator_AppendInput s c))"
proof -
  from assms have len: "length (input s) = 17" and "strlen (input s) < 17"
    using strlen_less [of "input s"] by (simp_all add: terminated_def INPUT_BUFFER_SIZE_def)
  then have full: "strlen (input s) + 1 \<ge> INPUT_BUFFER_SIZE \<longleftrightarrow> strlen (input s) = 16"
    by (auto simp: INPUT_BUFFER_SIZE_def)
  have room: "strlen (input s) + 1 < length (input s)" if "strlen (input s) \<noteq> 16"
    using that len \<open>strlen (input s) < 17\<close> by simp
  show ?thesis
    using assms full room c_str_append [of "input s" c] terminated_append [of "input s" c]
    by (auto simp: Calculator_AppendInput_def Let_def rejects_def
          Calculator_InputHasDecimal_def strchr_def)
qed

text \<open>
  Claim C7. For every content of the input buffer (an array of 17 bytes holding a
  terminated string) and every character \<open>c\<close>, the append is rejected exactly when the
  buffer already holds 16 characters or \<open>c\<close> is a decimal point and the buffer has one.
  A rejection leaves the whole state unchanged. Otherwise \<open>c\<close> is written at the end of
  the string, followed by the terminator, and nothing else changes: for every \<open>c\<close> that
  a string can hold (any but NUL) the string becomes the old one followed by \<open>c\<close>, so
  the state is unchanged only on rejection.
\<close>

theorem C7_append_rejected_or_appended:
  assumes "terminated (input s)"
  shows "(rejects s c \<longrightarrow> Calculator_AppendInput s c = s) \<and>
         (\<not> rejects s c \<longrightarrow>
            Calculator_AppendInput s c =
              s\<lparr>input := (input s)[strlen (input s) := c, strlen (input s) + 1 := NUL]\<rparr>) \<and>
         (\<not> rejects s c \<and> c \<noteq> NUL \<longrightarrow>
            c_str (input (Calculator_AppendInput s c)) = c_str (input s) @ [c]) \<and>
         (c \<noteq> NUL \<longrightarrow> (Calculator_AppendInput s c = s \<longleftrightarrow> rejects s c))"
proof -
  note cases = AppendInput_cases [OF assms, of c]
  have "Calculator_AppendInput s c \<noteq> s" if "\<not> rejects s c" "c \<noteq> NUL"
  proof
    assume "Calculator_AppendInput s c = s"
    with cases that have "c_str (input s) = c_str (input s) @ [c]" by simp
    then show False by simp
  qed
  with cases show ?thesis by auto
qed

text \<open>
  After the keys \<open>1\<close>, \<open>.\<close>, \<open>5\<close> a second decimal point is rejected and the digit
  \<open>7\<close> is appended; after sixteen digits a seventeenth is rejected.
\<close>

theorem C7_append_rejected_or_appended_witness:
  "Calculator_AppendInput (typed [8, 13, 5]) (CHR ''.'') = typed [8, 13, 5] \<and>
   c_str (input (Calculator_AppendInput (typed [8, 13, 5]) (CHR ''7''))) = ''1.57'' \<and>
   Calculator_AppendInput (typed [8, 9, 10, 4, 5, 6, 0, 1, 2, 12, 8, 9, 10, 4, 5, 6]) (CHR ''7'')
     = typed [8, 9, 10, 4, 5, 6, 0, 1, 2, 12, 8, 9, 10, 4, 5, 6]"
proof -
  have t: "terminated (input (typed [8, 13, 5]))"
    and t16: "terminated (input (typed [8, 9, 10, 4, 5, 6, 0, 1, 2, 12, 8, 9, 10, 4, 5, 6]))"
    by code_simp+
  have r: "rejects (typed [8, 13, 5]) (CHR ''.'')"
    and n: "\<not> rejects (typed [8, 13, 5]) (CHR ''7'')"
    and r16: "rejects (typed [8, 9, 10, 4, 5, 6, 0, 1, 2, 12, 8, 9, 10, 4, 5, 6]) (CHR ''7'')"
    by code_simp+
  have v: "c_str (input (typed [8, 13, 5])) @ [CHR ''7''] = ''1.57''"
    by code_simp
  have nz: "CHR ''7'' \<noteq> NUL" by (simp add: NUL_def)
  have a: "Calculator_AppendInput (typed [8, 13, 5]) (CHR ''.'') = typed [8, 13, 5]"
    using C7_append_rejected_or_appended [OF t, of "CHR ''.''"] r by blast
  have b: "c_str (input (Calculator_AppendInput (typed [8, 13, 5]) (CHR ''7''))) =
             c_str (input (typed [8, 13, 5])) @ [CHR ''7'']"
    using C7_append_rejected_or_appended [OF t, of "CHR ''7''"] n nz by blast
  have c: "Calculator_AppendInput (typed [8, 9, 10, 4, 5, 6, 0, 1, 2, 12, 8, 9, 10, 4, 5, 6])
             (CHR ''7'') = typed [8, 9, 10, 4, 5, 6, 0, 1, 2, 12, 8, 9, 10, 4, 5, 6]"
    using C7_append_rejected_or_appended [OF t16, of "CHR ''7''"] r16 by blast
  from a b c v show ?thesis by simp
qed

subsection \<open>At most one decimal point\<close>

lemma input_ok_cleared:
  "input s = replicate INPUT_BUFFER_SIZE NUL \<Longrightarrow> input_ok s"
  by (simp add: input_ok_def decimal_points_def c_str_def terminated_def INPUT_BUFFER_SIZE_def)

lemma input_ok_initial: "input_ok initial_state"
  by (rule input_ok_cleared) (simp add: initial_state_def)

lemma input_ok_AppendInput:
  assumes "input_ok s"
  shows "input_ok (Calculator_AppendInput s c)"
proof (cases "rejects s c")
  case True
  with assms AppendInput_cases [of s c] show ?thesis by (simp add: input_ok_def)
next
  case False
  from assms have t: "terminated (input s)" and d: "decimal_points s \<le> 1"
    by (simp_all add: input_ok_def)
  from AppendInput_cases [OF t, of c] False
  have str: "c_str (input (Calculator_AppendInput s c)) =
               (if c = NUL then c_str (input s) else c_str (input s) @ [c])"
    and t': "terminated (input (Calculator_AppendInput s c))" by blast+
  have "decimal_points (Calculator_AppendInput s c) \<le> 1"
  proof (cases "c = CHR ''.''")
    case True
    with False have "CHR ''.'' \<notin> set (c_str (input s))" by (simp add: rejects_def)
    then have "count_list (c_str (input s)) (CHR ''.'') = 0" by (simp add: count_list_0_iff)
    with str True show ?thesis by (simp add: decimal_points_def NUL_def)
  next
    case False
    with str d show ?thesis by (simp add: decimal_points_def)
  qed
  with t' show ?thesis by (simp add: input_ok_def)
qed

lemma input_HandleOperator:
  "input (fst (Calculator_HandleOperator F s op)) = replicate INPUT_BUFFER_SIZE NUL"
  by (simp add: Calculator_HandleOperator_def Calculator_ClearInput_def apply_pending_def
        Let_def split: prod.splits)

lemma input_HandleEquals:
  "input (fst (Calculator_HandleEquals F s)) = replicate INPUT_BUFFER_SIZE NUL \<or>
   fst (Calculator_HandleEquals F s) = s"
  by (simp add: Calculator_HandleEquals_def Calculator_ClearInput_def apply_pending_def
        Let_def split: prod.splits)

lemma input_ok_HandleButton:
  assumes "input_ok s"
  shows "input_ok (fst (Calculator_HandleButton F s b))"
proof (cases "error s \<and> btn_type b \<noteq> CALC_BUTTON_CLEAR")
  case True
  with assms show ?thesis by (simp add: Calculator_HandleButton_def)
next
  case False
  show ?thesis
  proof (cases "btn_type b")
    case CALC_BUTTON_DIGIT
    with False assms show ?thesis
      by (simp add: Calculator_HandleButton_def input_ok_AppendInput)
  next
    case CALC_BUTTON_OPERATOR
    with False show ?thesis
      by (simp add: Calculator_HandleButton_def input_ok_cleared input_HandleOperator)
  next
    case CALC_BUTTON_CLEAR
    then show ?thesis
      by (simp add: Calculator_HandleButton_def Calculator_Reset_def input_ok_cleared)
  next
    case CALC_BUTTON_EQUALS
    with False assms input_HandleEquals [of F s] show ?thesis
      by (auto simp: Calculator_HandleButton_def input_ok_cleared)
  qed
qed

lemma input_ok_press_all:
  "input_ok s \<Longrightarrow> input_ok (fst (press_all F s bs))"
proof (induction bs arbitrary: s)
  case Nil
  then show ?case by simp
next
  case (Cons b bs)
  from Cons.prems have "input_ok (fst (Calculator_HandleButton F s b))"
    by (rule input_ok_HandleButton)
  then have "input_ok (fst (press_all F (fst (Calculator_HandleButton F s b)) bs))"
    by (rule Cons.IH)
  then show ?case by (simp add: split_beta)
qed

text \<open>
  Claim C8. In every state reached from the initial state by a sequence of engine
  operations, whatever the buttons (any kind, any label), the string in the input
  buffer holds at most one decimal point.
\<close>

theorem C8_at_most_one_decimal_point:
  "decimal_points (fst (press_all F initial_state bs)) \<le> 1"
  using input_ok_press_all [OF input_ok_initial, of F bs] by (simp add: input_ok_def)

text \<open>The keys \<open>1\<close>, \<open>.\<close>, \<open>.\<close>, \<open>5\<close>, \<open>.\<close> leave the string \<open>1.5\<close>.\<close>

theorem C8_at_most_one_decimal_point_witness:
  "decimal_points (typed [8, 13, 13, 5, 13]) = 1 \<and>
   c_str (input (typed [8, 13, 13, 5, 13])) = ''1.5''"
proof -
  have v: "c_str (input (typed [8, 13, 13, 5, 13])) = ''1.5''" by code_simp
  then have "decimal_points (typed [8, 13, 13, 5, 13]) \<ge> 1"
    by (simp add: decimal_points_def)
  moreover have "decimal_points (typed [8, 13, 13, 5, 13]) \<le> 1"
    using C8_at_most_one_decimal_point [of whole_fpu "map (\<lambda>k. buttons 240 ! k) [8, 13, 13, 5, 13]"]
    by (simp add: typed_def press_keys_def)
  ultimately show ?thesis using v by simp
qed

section \<open>Two operators in a row\<close>

lemma after_operator_fields:
  "hasAccumulator (after_operator F s op) \<and>
   currentOperator (after_operator F s op) = op \<and>
   input (after_operator F s op) = replicate INPUT_BUFFER_SIZE NUL"
  by (simp add: after_operator_def Calculator_HandleOperator_def Calculator_ClearInput_def
        apply_pending_def Let_def split: prod.splits)

lemma ParseInput_cleared:
  "input s = replicate INPUT_BUFFER_SIZE NUL \<Longrightarrow> Calculator_ParseInput F s = pos_zero"
  by (simp add: Calculator_ParseInput_def INPUT_BUFFER_SIZE_def)

lemma NUL_not_operator: "NUL \<notin> operators"
  by (simp add: operators_def NUL_def)

text \<open>
  Claim C1 says that an operator key pressed right after another operator key leaves the
  accumulator unchanged. It does not: the keys \<open>9\<close>, \<open>=\<close>, \<open>/\<close> leave the accumulator
  at \<open>9.0\<close> with \<open>/\<close> pending, and the key \<open>+\<close> pressed next divides \<open>9.0\<close> by the
  value \<open>0.0\<close> of the empty buffer: the accumulator becomes \<open>0.0\<close>, and the error flag
  is raised.
\<close>

theorem C1_second_operator_changes_accumulator:
  "accumulator (after_operator whole_fpu (typed [2, 16]) (CHR ''/'')) = 0x4022000000000000 \<and>
   currentOperator (after_operator whole_fpu (typed [2, 16]) (CHR ''/'')) = CHR ''/'' \<and>
   accumulator (after_operator whole_fpu
                  (after_operator whole_fpu (typed [2, 16]) (CHR ''/'')) (CHR ''+'')) = 0 \<and>
   error (after_operator whole_fpu
            (after_operator whole_fpu (typed [2, 16]) (CHR ''/'')) (CHR ''+'')) \<and>
   accumulator (after_operator whole_fpu
                  (after_operator whole_fpu (typed [2, 16]) (CHR ''/'')) (CHR ''+''))
     \<noteq> accumulator (after_operator whole_fpu (typed [2, 16]) (CHR ''/''))"
  by code_simp

text \<open>
  Claim C1, amended. For every calculator state and all operators \<open>op1\<close>, \<open>op2\<close>, with
  \<open>op1\<close> one of \<open>+\<close>, \<open>-\<close>, \<open>*\<close>, \<open>/\<close>: after \<open>op1\<close> and then \<open>op2\<close> with no
  input between them the pending operator is \<open>op2\<close>, an accumulator is committed and the
  buffer is empty; the second call applies \<open>op1\<close> to the accumulator and \<open>0.0\<close>, the
  value of the empty buffer, and stores the result: the accumulator becomes
  \<open>Apply(acc, 0.0, op1)\<close>, where \<open>acc\<close> is the accumulator after the first call, and the
  error flag becomes the one that this application leaves.
\<close>

theorem C1_second_operator_applies_first_to_zero:
  assumes "op1 \<in> operators"
  shows "currentOperator (after_operator F (after_operator F s op1) op2) = op2 \<and>
         hasAccumulator (after_operator F (after_operator F s op1) op2) \<and>
         input (after_operator F (after_operator F s op1) op2) = replicate INPUT_BUFFER_SIZE NUL \<and>
         snd (Calculator_HandleOperator F (after_operator F s op1) op2) =
           [ApplyOperation (accumulator (after_operator F s op1)) pos_zero op1] \<and>
         (accumulator (after_operator F (after_operator F s op1) op2),
          error (after_operator F (after_operator F s op1) op2)) =
           Calculator_ApplyOperation F (accumulator (after_operator F s op1)) pos_zero op1
             (error (after_operator F s op1))"
proof -
  define s1 where "s1 = after_operator F s op1"
  have f: "hasAccumulator s1" "currentOperator s1 = op1"
    "input s1 = replicate INPUT_BUFFER_SIZE NUL"
    using after_operator_fields [of F s op1] by (simp_all add: s1_def)
  from assms have ne: "op1 \<noteq> NUL" using NUL_not_operator by auto
  have p: "Calculator_ParseInput F s1 = pos_zero"
    using f(3) by (rule ParseInput_cleared)
  have "Calculator_HandleOperator F s1 op2 =
          ((Calculator_ClearInput (fst (apply_pending F s1 pos_zero)))\<lparr>currentOperator := op2\<rparr>,
           snd (apply_pending F s1 pos_zero))"
    using f ne p by (simp add: Calculator_HandleOperator_def Let_def split_beta)
  then have "currentOperator (after_operator F s1 op2) = op2 \<and>
         hasAccumulator (after_operator F s1 op2) \<and>
         input (after_operator F s1 op2) = replicate INPUT_BUFFER_SIZE NUL \<and>
         snd (Calculator_HandleOperator F s1 op2) =
           [ApplyOperation (accumulator s1) pos_zero op1] \<and>
         (accumulator (after_operator F s1 op2), error (after_operator F s1 op2)) =
           Calculator_ApplyOperation F (accumulator s1) pos_zero op1 (error s1)"
    using f
    by (simp add: after_operator_def apply_pending_def Calculator_ClearInput_def split_beta)
  then show ?thesis
    unfolding s1_def .
qed

text \<open>
  The keys \<open>9\<close>, \<open>+\<close>, \<open>-\<close>: the second operator applies \<open>9.0 + 0.0\<close> and \<open>-\<close> is
  pending.
\<close>

theorem C1_second_operator_applies_first_to_zero_witness:
  "currentOperator (after_operator whole_fpu
      (after_operator whole_fpu (typed [2]) (CHR ''+'')) (CHR ''-'')) = CHR ''-'' \<and>
   snd (Calculator_HandleOperator whole_fpu
      (after_operator whole_fpu (typed [2]) (CHR ''+'')) (CHR ''-'')) =
     [ApplyOperation 0x4022000000000000 0 (CHR ''+'')]"
proof -
  have h: "CHR ''+'' \<in> operators" by (simp add: operators_def)
  have a: "accumulator (after_operator whole_fpu (typed [2]) (CHR ''+'')) = 0x4022000000000000"
    by code_simp
  from C1_second_operator_applies_first_to_zero [OF h, of whole_fpu "typed [2]" "CHR ''-''"] a
  show ?thesis by (simp add: pos_zero_def)
qed

section \<open>The operators that are applied\<close>

lemma applied_operators_append:
  "applied_operators (xs @ ys) = applied_operators xs @ applied_operators ys"
  by (simp add: applied_operators_def)

lemma applied_apply_pending:
  "applied_operators (snd (apply_pending F s v)) = [currentOperator s]"
  by (simp add: apply_pending_def applied_operators_def split_beta)

lemma HandleOperator_ops:
  "currentOperator (fst (Calculator_HandleOperator F s op)) = op \<and>
   set (applied_operators (snd (Calculator_HandleOperator F s op))) \<subseteq> {currentOperator s}"
  by (simp add: Calculator_HandleOperator_def Let_def split_beta applied_apply_pending
        Calculator_ClearInput_def) (simp add: applied_operators_def)

lemma HandleEquals_ops:
  "currentOperator (fst (Calculator_HandleEquals F s)) \<in> {NUL, currentOperator s} \<and>
   set (applied_operators (snd (Calculator_HandleEquals F s))) \<subseteq> {currentOperator s} - {NUL}"
  by (simp add: Calculator_HandleEquals_def Let_def split_beta applied_apply_pending
        Calculator_ClearInput_def) (simp add: applied_operators_def)

lemma currentOperator_AppendInput:
  "currentOperator (Calculator_AppendInput s c) = currentOperator s"
  by (simp add: Calculator_AppendInput_def Let_def)

lemma op_ok_HandleButton:
  assumes "op_ok s" "good_key b"
  shows "op_ok (fst (Calculator_HandleButton F s b)) \<and>
         set (applied_operators (snd (Calculator_HandleButton F s b))) \<subseteq> insert NUL operators"
proof (cases "error s \<and> btn_type b \<noteq> CALC_BUTTON_CLEAR")
  case True
  with assms show ?thesis
    by (simp add: Calculator_HandleButton_def applied_operators_def)
next
  case False
  show ?thesis
  proof (cases "btn_type b")
    case CALC_BUTTON_DIGIT
    with False assms show ?thesis
      by (simp add: Calculator_HandleButton_def applied_operators_def op_ok_def
            currentOperator_AppendInput)
  next
    case CALC_BUTTON_OPERATOR
    with False assms HandleOperator_ops [of F s "label0 b"] show ?thesis
      by (auto simp: Calculator_HandleButton_def op_ok_def good_key_def)
  next
    case CALC_BUTTON_CLEAR
    then show ?thesis
      by (simp add: Calculator_HandleButton_def Calculator_Reset_def applied_operators_def
            op_ok_def)
  next
    case CALC_BUTTON_EQUALS
    with False assms HandleEquals_ops [of F s] show ?thesis
      by (auto simp: Calculator_HandleButton_def op_ok_def)
  qed
qed

lemma op_ok_press_all:
  "op_ok s \<Longrightarrow> \<forall>b \<in> set bs. good_key b \<Longrightarrow>
   set (applied_operators (snd (press_all F s bs))) \<subseteq> insert NUL operators"
proof (induction bs arbitrary: s)
  case Nil
  then show ?case by (simp add: applied_operators_def)
next
  case (Cons b bs)
  from Cons.prems have st: "op_ok (fst (Calculator_HandleButton F s b))"
    and c1: "set (applied_operators (snd (Calculator_HandleButton F s b))) \<subseteq> insert NUL operators"
    using op_ok_HandleButton [of s b F] by simp_all
  from Cons.prems have "\<forall>b \<in> set bs. good_key b" by simp
  with st have "set (applied_operators (snd (press_all F (fst (Calculator_HandleButton F s b)) bs)))
                  \<subseteq> insert NUL operators"
    by (rule Cons.IH)
  with c1 show ?case
    by (simp add: split_beta applied_operators_append)
qed

lemma length_buttons: "length (buttons W) = 17"
  by (simp add: buttons_def)

lemma good_key_buttons: "\<forall>b \<in> set (buttons W). good_key b"
  by (simp add: buttons_def key_def good_key_def label0_def operators_def)

lemma op_ok_initial: "op_ok initial_state"
  by (simp add: op_ok_def initial_state_def)

text \<open>
  Claim C2 says that no sequence of keys makes \<^verbatim>\<open>Calculator_ApplyOperation\<close> run with
  an operator other than \<open>+\<close>, \<open>-\<close>, \<open>*\<close>, \<open>/\<close>. The keys \<open>7\<close>, \<open>=\<close>, \<open>5\<close>, \<open>+\<close> do:
  \<open>=\<close> commits \<open>7.0\<close> with no operator pending, and \<open>+\<close>, finding an accumulator and
  a non-empty buffer, applies the pending operator, which is 0, to \<open>7.0\<close> and \<open>5.0\<close>.
\<close>

theorem C2_default_branch_reached:
  "snd (press_keys 240 whole_fpu initial_state [0, 16, 5, 15]) =
     [ApplyOperation 0x401C000000000000 0x4014000000000000 (CHR 0x00)] \<and>
   \<not> set (applied_operators (snd (press_keys 240 whole_fpu initial_state [0, 16, 5, 15])))
       \<subseteq> operators \<and>
   accumulator (typed [0, 16, 5, 15]) = 0x4014000000000000"
  by code_simp

text \<open>
  Claim C2, amended. In every run from the initial state over keys of the table,
  \<^verbatim>\<open>Calculator_ApplyOperation\<close> is called only with one of \<open>+\<close>, \<open>-\<close>, \<open>*\<close>, \<open>/\<close> or
  with 0, the value of the operator field when none is pending; with 0 it takes the
  default branch and returns its second operand, flag untouched. The default branch is
  reachable.
\<close>

theorem C2_applied_operator_is_key_or_none:
  assumes "\<forall>k \<in> set ks. k < length (buttons W)"
  shows "set (applied_operators (snd (press_keys W F initial_state ks))) \<subseteq> insert NUL operators \<and>
         Calculator_ApplyOperation F a b NUL e = (b, e)"
proof -
  from assms have "\<forall>b \<in> set (map (\<lambda>k. buttons W ! k) ks). good_key b"
    using good_key_buttons [of W] by simp
  with op_ok_initial
  have "set (applied_operators (snd (press_all F initial_state (map (\<lambda>k. buttons W ! k) ks))))
          \<subseteq> insert NUL operators"
    by (rule op_ok_press_all)
  moreover have "Calculator_ApplyOperation F a b NUL e = (b, e)"
    by (simp add: Calculator_ApplyOperation_def NUL_def)
  ultimately show ?thesis by (simp add: press_keys_def)
qed

text \<open>The keys \<open>7\<close>, \<open>+\<close>, \<open>3\<close>, \<open>=\<close> apply \<open>+\<close> once, and the result is \<open>10.0\<close>.\<close>

theorem C2_applied_operator_is_key_or_none_witness:
  "set (applied_operators (snd (press_keys 240 whole_fpu initial_state [0, 15, 10, 16])))
     \<subseteq> insert NUL operators \<and>
   applied_operators (snd (press_keys 240 whole_fpu initial_state [0, 15, 10, 16])) = [CHR ''+''] \<and>
   accumulator (typed [0, 15, 10, 16]) = 0x4024000000000000"
proof -
  have h: "\<forall>k \<in> set [0, 15, 10, 16]. k < length (buttons 240)"
    by (simp add: length_buttons)
  have v: "applied_operators (snd (press_keys 240 whole_fpu initial_state [0, 15, 10, 16])) = [CHR ''+'']"
    "accumulator (typed [0, 15, 10, 16]) = 0x4024000000000000"
    by code_simp+
  from C2_applied_operator_is_key_or_none [OF h, of whole_fpu] v show ?thesis by blast
qed

section \<open>The rectangles of the keypad do not overlap\<close>

text \<open>
  For a display width within \<open>width_ok\<close>, a point lies inside the rectangle of at most
  one button, so the hit test returns the index of the button whose rectangle holds it.
\<close>

lemma BUTTON_WIDTH_range:
  assumes "width_ok W"
  shows "0 \<le> BUTTON_WIDTH W \<and> BUTTON_WIDTH W \<le> 16377"
proof -
  from assms have w: "24 \<le> W" "W \<le> 65535" by (simp_all add: width_ok_def)
  then have "BUTTON_WIDTH W = (W - 24) div 4"
    by (simp add: BUTTON_WIDTH_def c_div_def BUTTON_START_X_def BUTTON_SPACING_def
          BUTTON_COLUMNS_def sgn_if)
  with w show ?thesis by presburger
qed

lemma uint16_of_int:
  "0 \<le> n \<Longrightarrow> n < 65536 \<Longrightarrow> uint (word_of_int n :: 16 word) = n"
  by (simp add: uint_word_of_int_eq take_bit_int_eq_self)

lemma key_index_cases:
  assumes "i < (16::nat)"
  shows "i \<in> set [0, 1, 2, 3] \<or> i \<in> set [4, 5, 6, 7] \<or>
         i \<in> set [8, 9, 10, 11] \<or> i \<in> set [12, 13, 14, 15]"
  using assms by simp arith

lemma inside_fields:
  "uint (btn_x b) = X \<Longrightarrow> uint (btn_w b) = Bw \<Longrightarrow> uint (btn_y b) = Y \<Longrightarrow>
   uint (btn_h b) = H \<Longrightarrow>
   inside b px py \<longleftrightarrow> X \<le> uint px \<and> uint px \<le> X + Bw \<and> Y \<le> uint py \<and> uint py \<le> Y + H"
  by (simp add: inside_def)

lemma inside_key:
  assumes "width_ok W" "c \<in> {0, 1, 2, 3}" "r \<in> {0, 1, 2, 3}"
  shows "inside (key W l c r t) px py \<longleftrightarrow>
           col_span (BUTTON_WIDTH W) c (uint px) \<and> row_span r (uint py)"
proof -
  define B where "B = BUTTON_WIDTH W"
  define X where "X = BUTTON_START_X + c * (B + BUTTON_SPACING)"
  define Y where "Y = BUTTON_START_Y + r * (BUTTON_HEIGHT + BUTTON_SPACING)"
  have B: "0 \<le> B" "B \<le> 16377"
    using BUTTON_WIDTH_range [OF assms(1)] by (simp_all add: B_def)
  have Xv: "X = 6 + c * (B + 4)" and Yv: "Y = 90 + r * 59"
    by (simp_all add: X_def Y_def BUTTON_START_X_def BUTTON_START_Y_def BUTTON_SPACING_def
          BUTTON_HEIGHT_def DISPLAY_HEIGHT_def)
  have Xr: "0 \<le> X" "X < 65536" using assms(2) B by (auto simp: Xv)
  have Yr: "0 \<le> Y" "Y < 65536" using assms(3) by (auto simp: Yv)
  have x: "uint (btn_x (key W l c r t)) = X"
    unfolding key_def X_def B_def CalculatorButton.select_convs
    using Xr unfolding X_def B_def by (rule uint16_of_int)
  have y: "uint (btn_y (key W l c r t)) = Y"
    unfolding key_def Y_def CalculatorButton.select_convs
    using Yr unfolding Y_def by (rule uint16_of_int)
  have w: "uint (btn_w (key W l c r t)) = B"
    unfolding key_def B_def CalculatorButton.select_convs
    using B unfolding B_def by (intro uint16_of_int) simp_all
  have h: "uint (btn_h (key W l c r t)) = 55"
    by (simp add: key_def BUTTON_HEIGHT_def)
  show ?thesis
    unfolding inside_fields [OF x w y h]
    by (simp add: col_span_def row_span_def Xv Yv B_def)
qed

lemma inside_equals:
  assumes "width_ok W"
  shows "inside (buttons W ! 16) px py \<longleftrightarrow>
           6 \<le> uint px \<and> uint px \<le> 6 + (BUTTON_WIDTH W * 4 + 12) \<and> row_span 4 (uint py)"
proof -
  define B where "B = BUTTON_WIDTH W"
  define L where "L = B * 4 + BUTTON_SPACING * 3"
  define Y where "Y = BUTTON_START_Y + 4 * (BUTTON_HEIGHT + BUTTON_SPACING)"
  have B: "0 \<le> B" "B \<le> 16377"
    using BUTTON_WIDTH_range [OF assms(1)] by (simp_all add: B_def)
  have Lv: "L = B * 4 + 12" and Yv: "Y = 326"
    by (simp_all add: L_def Y_def BUTTON_START_Y_def BUTTON_SPACING_def
          BUTTON_HEIGHT_def DISPLAY_HEIGHT_def)
  have Lr: "0 \<le> L" "L < 65536" using B by (auto simp: Lv)
  have Yr: "0 \<le> Y" "Y < 65536" by (simp_all add: Yv)
  have b: "buttons W ! 16 =
             \<lparr>btn_label = ''='', btn_x = word_of_int BUTTON_START_X, btn_y = word_of_int Y,
              btn_w = word_of_int L, btn_h = word_of_int BUTTON_HEIGHT,
              btn_type = CALC_BUTTON_EQUALS\<rparr>"
    unfolding buttons_def L_def Y_def B_def by simp
  have x: "uint (btn_x (buttons W ! 16)) = 6"
    unfolding b by (simp add: BUTTON_START_X_def)
  have y: "uint (btn_y (buttons W ! 16)) = Y"
    unfolding b CalculatorButton.select_convs using Yr by (rule uint16_of_int)
  have w: "uint (btn_w (buttons W ! 16)) = L"
    unfolding b CalculatorButton.select_convs using Lr by (rule uint16_of_int)
  have h: "uint (btn_h (buttons W ! 16)) = 55"
    unfolding b by (simp add: BUTTON_HEIGHT_def)
  show ?thesis
    unfolding inside_fields [OF x w y h]
    by (simp add: row_span_def Lv Yv B_def)
qed

lemma buttons_grid:
  assumes "i < 16"
  shows "\<exists>l t. buttons W ! i = key W l (int (i mod 4)) (int (i div 4)) t"
  using key_index_cases [OF assms]
  by (auto simp: buttons_def) blast+

lemma inside_grid:
  assumes "width_ok W" "i < 16"
  shows "inside (buttons W ! i) px py \<longleftrightarrow>
           col_span (BUTTON_WIDTH W) (int (i mod 4)) (uint px) \<and>
           row_span (int (i div 4)) (uint py)"
proof -
  from buttons_grid [OF assms(2)] obtain l t where
    b: "buttons W ! i = key W l (int (i mod 4)) (int (i div 4)) t" by blast
  have c: "int (i mod 4) \<in> {0, 1, 2, 3}"
  proof -
    have "i mod 4 < 4" by simp
    then have "i mod 4 = 0 \<or> i mod 4 = 1 \<or> i mod 4 = 2 \<or> i mod 4 = 3" by arith
    then show ?thesis by auto
  qed
  have r: "int (i div 4) \<in> {0, 1, 2, 3}"
  proof -
    from assms(2) have "i div 4 < 4" by simp
    then have "i div 4 = 0 \<or> i div 4 = 1 \<or> i div 4 = 2 \<or> i div 4 = 3" by arith
    then show ?thesis by auto
  qed
  show ?thesis unfolding b by (rule inside_key [OF assms(1) c r])
qed

lemma col_span_unique:
  assumes "0 \<le> B" "c \<in> {0, 1, 2, 3}" "c' \<in> {0, 1, 2, 3}" "col_span B c p" "col_span B c' p"
  shows "c = c'"
  using assms by (auto simp: col_span_def)

lemma row_span_unique:
  assumes "row_span r p" "row_span r' p"
  shows "r = r'"
proof (rule ccontr)
  assume "r \<noteq> r'"
  then consider "r + 1 \<le> r'" | "r' + 1 \<le> r" by linarith
  then show False using assms by cases (auto simp: row_span_def)
qed

lemma inside_unique:
  assumes "width_ok W" "i < 17" "j < 17" "inside (buttons W ! i) px py" "inside (buttons W ! j) px py"
  shows "i = j"
proof -
  have B: "0 \<le> BUTTON_WIDTH W" using BUTTON_WIDTH_range [OF assms(1)] by simp
  have grid: "a = b" if "a < 16" "b < 16" "inside (buttons W ! a) px py"
    "inside (buttons W ! b) px py" for a b
  proof -
    from that inside_grid [OF assms(1)] have
      ca: "col_span (BUTTON_WIDTH W) (int (a mod 4)) (uint px)" and
      ra: "row_span (int (a div 4)) (uint py)" and
      cb: "col_span (BUTTON_WIDTH W) (int (b mod 4)) (uint px)" and
      rb: "row_span (int (b div 4)) (uint py)" by blast+
    have m: "int (k mod 4) \<in> {0, 1, 2, 3}" for k :: nat
    proof -
      have "k mod 4 < 4" by simp
      then have "k mod 4 = 0 \<or> k mod 4 = 1 \<or> k mod 4 = 2 \<or> k mod 4 = 3" by arith
      then show ?thesis by auto
    qed
    from col_span_unique [OF B m m ca cb] have "a mod 4 = b mod 4" by simp
    moreover from row_span_unique [OF ra rb] have "a div 4 = b div 4" by simp
    ultimately show "a = b" by (metis div_mult_mod_eq)
  qed
  have last: False if "a < 16" "inside (buttons W ! a) px py" "inside (buttons W ! 16) px py" for a
  proof -
    from that(1,2) inside_grid [OF assms(1)] have "row_span (int (a div 4)) (uint py)" by blast
    moreover from that(3) inside_equals [OF assms(1)] have "row_span 4 (uint py)" by blast
    ultimately have "int (a div 4) = 4" by (rule row_span_unique)
    with that(1) show False by simp
  qed
  from assms(2,3) have "i < 16 \<or> i = 16" "j < 16 \<or> j = 16" by auto
  with assms(4,5) grid last show ?thesis by blast
qed

lemma find_from_first:
  "i < length bs \<Longrightarrow> inside (bs ! i) px py \<Longrightarrow> \<forall>j<i. \<not> inside (bs ! j) px py \<Longrightarrow>
   find_from bs k px py = int (k + i)"
proof (induction bs arbitrary: i k)
  case Nil
  then show ?case by simp
next
  case (Cons b bs)
  show ?case
  proof (cases i)
    case 0
    with Cons.prems show ?thesis by simp
  next
    case (Suc n)
    with Cons.prems have nb: "\<not> inside b px py" by auto
    from Suc Cons.prems have "n < length bs" "inside (bs ! n) px py"
      "\<forall>j<n. \<not> inside (bs ! j) px py" by auto
    then have "find_from bs (Suc k) px py = int (Suc k + n)" by (rule Cons.IH)
    with nb Suc show ?thesis by simp
  qed
qed

lemma FindButton_inside:
  assumes "width_ok W" "i < 17" "inside (buttons W ! i) px py"
  shows "Calculator_FindButton W px py = int i"
proof -
  have "\<forall>j<i. \<not> inside (buttons W ! j) px py"
  proof (intro allI impI notI)
    fix j assume "j < i" "inside (buttons W ! j) px py"
    with assms have "i = j" by (intro inside_unique [of W i j px py]) simp_all
    with \<open>j < i\<close> show False by simp
  qed
  with assms have "find_from (buttons W) 0 px py = int (0 + i)"
    by (intro find_from_first) (simp_all add: length_buttons)
  then show ?thesis by (simp add: Calculator_FindButton_def)
qed

section \<open>One activation for each press\<close>

lemma activations_append: "activations (xs @ ys) = activations xs @ activations ys"
  by (simp add: activations_def)

lemma activations_Nil: "activations [] = []"
  by (simp add: activations_def)

lemma activations_Cons:
  "activations (HandleButton i # cs) = i # activations cs"
  "activations (ApplyOperation a b op # cs) = activations cs"
  "activations (DrawButton i p # cs) = activations cs"
  "activations (DrawDisplay s t # cs) = activations cs"
  by (simp_all add: activations_def)

lemmas activations_simps = activations_append activations_Nil activations_Cons

lemma activations_apply_pending: "activations (snd (apply_pending F s v)) = []"
  by (simp add: apply_pending_def activations_simps split_beta)

lemma activations_engine: "activations (snd (Calculator_HandleButton F s b)) = []"
proof -
  have "activations (snd (Calculator_HandleOperator F s c)) = []" for c
    by (simp add: Calculator_HandleOperator_def Let_def split_beta activations_apply_pending
          activations_simps)
  moreover have "activations (snd (Calculator_HandleEquals F s)) = []"
    by (simp add: Calculator_HandleEquals_def Let_def split_beta activations_apply_pending
          activations_simps)
  ultimately show ?thesis
    by (simp add: Calculator_HandleButton_def activations_simps
          split: CalculatorButtonType.split)
qed

lemma dispatch_activate:
  assumes "read_pressed rd" "Calculator_FindButton W (read_x rd) (read_y rd) = int i"
    "lastButton ls \<noteq> int i"
  shows "dispatch W F ls rd =
           (ls\<lparr>touchStatus := pressed_status rd,
               calc_state := fst (Calculator_HandleButton F (calc_state ls) (buttons W ! i)),
               stateDirty := True,
               lastButton := int i\<rparr>,
            HandleButton i # snd (Calculator_HandleButton F (calc_state ls) (buttons W ! i))
              @ [DrawButton i True])"
  using assms by (simp add: dispatch_def Let_def split_beta pressed_status_def)

lemma dispatch_hold:
  assumes "read_pressed rd"
    "Calculator_FindButton W (read_x rd) (read_y rd) = lastButton ls \<or>
     Calculator_FindButton W (read_x rd) (read_y rd) = - 1"
  shows "dispatch W F ls rd = (ls\<lparr>touchStatus := pressed_status rd\<rparr>, [])"
  using assms by (auto simp: dispatch_def Let_def split_beta pressed_status_def)

lemma dispatch_release:
  assumes "\<not> read_pressed rd"
  shows "dispatch W F ls rd =
           (if lastButton ls \<ge> 0
            then (ls\<lparr>touchStatus := released_status, lastButton := - 1\<rparr>,
                  [DrawButton (nat (lastButton ls)) False])
            else (ls\<lparr>touchStatus := released_status\<rparr>, []))"
  using assms by (simp add: dispatch_def Let_def)

lemma render_gate_keeps:
  "calc_state (fst (render_gate ls)) = calc_state ls \<and>
   lastButton (fst (render_gate ls)) = lastButton ls \<and>
   activations (snd (render_gate ls)) = []"
  by (simp add: render_gate_def activations_simps)

lemma loop_body_activate:
  assumes "read_pressed rd" "Calculator_FindButton W (read_x rd) (read_y rd) = int i"
    "lastButton ls \<noteq> int i"
  shows "activations (snd (loop_body W F ls rd)) = [i] \<and>
         lastButton (fst (loop_body W F ls rd)) = int i \<and>
         calc_state (fst (loop_body W F ls rd)) =
           fst (Calculator_HandleButton F (calc_state ls) (buttons W ! i))"
  using render_gate_keeps [of "fst (dispatch W F ls rd)"]
  by (simp add: loop_body_def split_beta dispatch_activate [OF assms] activations_simps
        activations_engine)

lemma loop_body_hold:
  assumes "read_pressed rd"
    "Calculator_FindButton W (read_x rd) (read_y rd) = lastButton ls \<or>
     Calculator_FindButton W (read_x rd) (read_y rd) = - 1"
  shows "activations (snd (loop_body W F ls rd)) = [] \<and>
         lastButton (fst (loop_body W F ls rd)) = lastButton ls \<and>
         calc_state (fst (loop_body W F ls rd)) = calc_state ls"
  using render_gate_keeps [of "fst (dispatch W F ls rd)"]
  by (simp add: loop_body_def split_beta dispatch_hold [OF assms] activations_simps)

lemma run_loop_hold:
  "\<forall>rd \<in> set rds. read_pressed rd \<and>
      (Calculator_FindButton W (read_x rd) (read_y rd) = lastButton ls \<or>
       Calculator_FindButton W (read_x rd) (read_y rd) = - 1) \<Longrightarrow>
   activations (snd (run_loop W F ls rds)) = [] \<and>
   lastButton (fst (run_loop W F ls rds)) = lastButton ls \<and>
   calc_state (fst (run_loop W F ls rds)) = calc_state ls"
proof (induction rds arbitrary: ls)
  case Nil
  then show ?case by (simp add: activations_simps)
next
  case (Cons rd rds)
  define ls1 where "ls1 = fst (loop_body W F ls rd)"
  from Cons.prems have
    h: "activations (snd (loop_body W F ls rd)) = []" "lastButton ls1 = lastButton ls"
       "calc_state ls1 = calc_state ls"
    using loop_body_hold [of rd W ls F] by (simp_all add: ls1_def)
  from Cons.prems h(2) have "\<forall>rd \<in> set rds. read_pressed rd \<and>
      (Calculator_FindButton W (read_x rd) (read_y rd) = lastButton ls1 \<or>
       Calculator_FindButton W (read_x rd) (read_y rd) = - 1)" by simp
  from Cons.IH [OF this] h show ?case
    by (simp add: split_beta activations_simps ls1_def)
qed

lemma run_loop_press:
  assumes "lastButton ls \<noteq> int i" "rds \<noteq> []"
    "\<forall>rd \<in> set rds. read_pressed rd \<and>
      (Calculator_FindButton W (read_x rd) (read_y rd) = int i \<or>
       Calculator_FindButton W (read_x rd) (read_y rd) = - 1)"
    "Calculator_FindButton W (read_x (hd rds)) (read_y (hd rds)) = int i"
  shows "activations (snd (run_loop W F ls rds)) = [i] \<and>
         lastButton (fst (run_loop W F ls rds)) = int i \<and>
         calc_state (fst (run_loop W F ls rds)) =
           fst (Calculator_HandleButton F (calc_state ls) (buttons W ! i))"
proof -
  from assms(2) obtain rd rest where rds: "rds = rd # rest" by (cases rds) auto
  define ls1 where "ls1 = fst (loop_body W F ls rd)"
  from assms rds have
    h: "activations (snd (loop_body W F ls rd)) = [i]" "lastButton ls1 = int i"
       "calc_state ls1 = fst (Calculator_HandleButton F (calc_state ls) (buttons W ! i))"
    using loop_body_activate [of rd W i ls F] by (simp_all add: ls1_def)
  from assms(3) rds h(2) have "\<forall>rd \<in> set rest. read_pressed rd \<and>
      (Calculator_FindButton W (read_x rd) (read_y rd) = lastButton ls1 \<or>
       Calculator_FindButton W (read_x rd) (read_y rd) = - 1)" by simp
  from run_loop_hold [OF this, of F] h show ?thesis
    by (simp add: rds split_beta activations_simps ls1_def)
qed

text \<open>
  Claim C3. Take any run of one or more consecutive loop iterations, started with no
  button held, in which every touch read is pressed and lies inside the rectangle of one
  button \<open>i\<close>. Whatever the length of the run, \<^verbatim>\<open>Calculator_HandleButton\<close> is called
  exactly once, for button \<open>i\<close>: the calculator state after the run is the state that one
  call leaves, and \<open>i\<close> is the held button.
\<close>

theorem C3_one_activation_per_press:
  assumes "width_ok W" "i < 17" "lastButton ls = - 1" "rds \<noteq> []"
    "\<forall>rd \<in> set rds. on_button W i rd"
  shows "activations (snd (run_loop W F ls rds)) = [i] \<and>
         calc_state (fst (run_loop W F ls rds)) =
           fst (Calculator_HandleButton F (calc_state ls) (buttons W ! i)) \<and>
         lastButton (fst (run_loop W F ls rds)) = int i"
proof -
  have f: "Calculator_FindButton W (read_x rd) (read_y rd) = int i" if "rd \<in> set rds" for rd
    using that assms(1,2,5) by (intro FindButton_inside) (simp_all add: on_button_def)
  from assms(3) have "lastButton ls \<noteq> int i" by simp
  moreover note assms(4)
  moreover from assms(5) f have "\<forall>rd \<in> set rds. read_pressed rd \<and>
      (Calculator_FindButton W (read_x rd) (read_y rd) = int i \<or>
       Calculator_FindButton W (read_x rd) (read_y rd) = - 1)"
    by (simp add: on_button_def)
  moreover from assms(4) f have
    "Calculator_FindButton W (read_x (hd rds)) (read_y (hd rds)) = int i" by simp
  ultimately show ?thesis
    using run_loop_press [of ls i rds W F] by simp
qed

text \<open>
  A finger resting on the key \<open>7\<close> for three iterations, moving a little: one
  activation, and the buffer holds \<open>7\<close>.
\<close>

theorem C3_one_activation_per_press_witness:
  "activations (snd (run_loop 240 whole_fpu (main_init initial_state)
      [touch_at 10 100, touch_at 11 101, touch_at 12 100])) = [0] \<and>
   c_str (input (calc_state (fst (run_loop 240 whole_fpu (main_init initial_state)
      [touch_at 10 100, touch_at 11 101, touch_at 12 100])))) = ''7''"
proof -
  have w: "width_ok 240" by (simp add: width_ok_def)
  have i: "(0::nat) < 17" by simp
  have l: "lastButton (main_init initial_state) = - 1" by (simp add: main_init_def)
  have n: "[touch_at 10 100, touch_at 11 101, touch_at 12 100] \<noteq> []" by simp
  have o: "\<forall>rd \<in> set [touch_at 10 100, touch_at 11 101, touch_at 12 100]. on_button 240 0 rd"
    by code_simp
  have v: "c_str (input (fst (Calculator_HandleButton whole_fpu
             (calc_state (main_init initial_state)) (buttons 240 ! 0)))) = ''7''"
    by code_simp
  from C3_one_activation_per_press [OF w i l n o, of whole_fpu] v show ?thesis by simp
qed

text \<open>
  Claim C10. On an iteration whose touch read is pressed while the hit test finds no
  button, the dispatcher calls nothing and leaves the held button as it is: it neither
  activates a button nor goes back to idle. So a press that starts on button \<open>i\<close> with
  no button held, moves to the space between the buttons and comes back to button \<open>i\<close>
  activates button \<open>i\<close> once for the whole press.
\<close>

theorem C10_dead_space_keeps_held_button:
  assumes "width_ok W" "i < 17" "lastButton ls = - 1" "rds1 \<noteq> []"
    "\<forall>rd \<in> set rds1. on_button W i rd"
    "\<forall>rd \<in> set rds2. off_buttons W rd"
    "\<forall>rd \<in> set rds3. on_button W i rd"
  shows "(\<forall>rd \<in> set rds2. \<forall>l.
            dispatch W F l rd = (l\<lparr>touchStatus := pressed_status rd\<rparr>, []) \<and>
            lastButton (fst (dispatch W F l rd)) = lastButton l) \<and>
         activations (snd (run_loop W F ls (rds1 @ rds2 @ rds3))) = [i]"
proof -
  have one: "dispatch W F l rd = (l\<lparr>touchStatus := pressed_status rd\<rparr>, []) \<and>
             lastButton (fst (dispatch W F l rd)) = lastButton l"
    if "rd \<in> set rds2" for rd l
  proof -
    from that assms(6) have "read_pressed rd"
      "Calculator_FindButton W (read_x rd) (read_y rd) = - 1"
      by (simp_all add: off_buttons_def)
    then have "dispatch W F l rd = (l\<lparr>touchStatus := pressed_status rd\<rparr>, [])"
      by (intro dispatch_hold) simp_all
    then show ?thesis by simp
  qed
  have f: "Calculator_FindButton W (read_x rd) (read_y rd) = int i"
    if "rd \<in> set rds1 \<union> set rds3" for rd
    using that assms(1,2,5,7) by (intro FindButton_inside) (auto simp: on_button_def)
  from assms(3) have "lastButton ls \<noteq> int i" by simp
  moreover from assms(4) have "rds1 @ rds2 @ rds3 \<noteq> []" by simp
  moreover from assms(5,6,7) f have "\<forall>rd \<in> set (rds1 @ rds2 @ rds3). read_pressed rd \<and>
      (Calculator_FindButton W (read_x rd) (read_y rd) = int i \<or>
       Calculator_FindButton W (read_x rd) (read_y rd) = - 1)"
    by (auto simp: on_button_def off_buttons_def)
  moreover from assms(4) f have
    "Calculator_FindButton W (read_x (hd (rds1 @ rds2 @ rds3))) (read_y (hd (rds1 @ rds2 @ rds3))) = int i"
    by simp
  ultimately have "activations (snd (run_loop W F ls (rds1 @ rds2 @ rds3))) = [i]"
    using run_loop_press [of ls i "rds1 @ rds2 @ rds3" W F] by simp
  with one show ?thesis by blast
qed

text \<open>
  A press on the key \<open>7\<close> that moves into the gap between \<open>7\<close> and \<open>8\<close> (the pixel
  columns 61 to 63) and back: one activation, and in the gap the key \<open>7\<close> stays held.
\<close>

theorem C10_dead_space_keeps_held_button_witness:
  "Calculator_FindButton 240 (read_x (touch_at 62 100)) (read_y (touch_at 62 100)) = - 1 \<and>
   lastButton (fst (dispatch 240 whole_fpu holding_7 (touch_at 62 100))) = 0 \<and>
   activations (snd (run_loop 240 whole_fpu (main_init initial_state)
      ([touch_at 10 100] @ [touch_at 62 100, touch_at 63 101] @ [touch_at 10 100]))) = [0]"
proof -
  have w: "width_ok 240" by (simp add: width_ok_def)
  have i: "(0::nat) < 17" by simp
  have l: "lastButton (main_init initial_state) = - 1" by (simp add: main_init_def)
  have n: "[touch_at 10 100] \<noteq> []" by simp
  have o: "\<forall>rd \<in> set [touch_at 10 100]. on_button 240 0 rd"
    by code_simp
  have d: "\<forall>rd \<in> set [touch_at 62 100, touch_at 63 101]. off_buttons 240 rd"
    by code_simp
  have f: "Calculator_FindButton 240 (read_x (touch_at 62 100)) (read_y (touch_at 62 100)) = - 1"
    by code_simp
  have h: "lastButton holding_7 = 0" by code_simp
  from C10_dead_space_keeps_held_button [OF w i l n o d o, of whole_fpu] f h
  show ?thesis by simp
qed

section \<open>The dirty flag\<close>

text \<open>
  Claim C9 says that the dirty flag is also set on the iteration that releases a held
  button. It is not: after one iteration with a press on the key \<open>7\<close> the key is held and
  the flag is off (the display was redrawn); dispatching a read with no touch then
  redraws the button and forgets it, and the flag is still off.
\<close>

theorem C9_release_leaves_dirty_flag_off:
  "lastButton holding_7 = 0 \<and>
   \<not> stateDirty holding_7 \<and>
   \<not> stateDirty (fst (dispatch 240 whole_fpu holding_7 no_touch)) \<and>
   lastButton (fst (dispatch 240 whole_fpu holding_7 no_touch)) = - 1 \<and>
   snd (dispatch 240 whole_fpu holding_7 no_touch) = [DrawButton 0 False]"
  by code_simp

text \<open>
  Claim C9, amended. On every loop iteration the dispatcher sets the dirty flag whenever
  it activates a button, which is the only place where it calls the engine: the flag is
  set whenever \<^verbatim>\<open>Calculator_HandleButton\<close> was called and whenever the calculator state
  changed. On the iteration that releases a held button the flag is left as it was; the
  button is redrawn at rest and no button is held.
\<close>

theorem C9_dirty_on_activation_not_on_release:
  "(read_pressed rd \<and> 0 \<le> Calculator_FindButton W (read_x rd) (read_y rd) \<and>
      Calculator_FindButton W (read_x rd) (read_y rd) \<noteq> lastButton ls
      \<longrightarrow> stateDirty (fst (dispatch W F ls rd))) \<and>
   (activations (snd (dispatch W F ls rd)) \<noteq> [] \<longrightarrow> stateDirty (fst (dispatch W F ls rd))) \<and>
   (calc_state (fst (dispatch W F ls rd)) \<noteq> calc_state ls
      \<longrightarrow> stateDirty (fst (dispatch W F ls rd))) \<and>
   (\<not> read_pressed rd \<longrightarrow>
      stateDirty (fst (dispatch W F ls rd)) = stateDirty ls \<and>
      (0 \<le> lastButton ls \<longrightarrow>
         lastButton (fst (dispatch W F ls rd)) = - 1 \<and>
         snd (dispatch W F ls rd) = [DrawButton (nat (lastButton ls)) False]))"
  by (auto simp: dispatch_def Let_def split_beta activations_simps activations_engine)

text \<open>
  With the key \<open>7\<close> held and the flag off, a move onto the key \<open>8\<close> activates it and
  sets the flag; a release leaves the flag off.
\<close>

theorem C9_dirty_on_activation_not_on_release_witness:
  "\<not> stateDirty holding_7 \<and>
   activations (snd (dispatch 240 whole_fpu holding_7 (touch_at 70 100))) = [1] \<and>
   calc_state (fst (dispatch 240 whole_fpu holding_7 (touch_at 70 100))) \<noteq> calc_state holding_7 \<and>
   stateDirty (fst (dispatch 240 whole_fpu holding_7 (touch_at 70 100))) \<and>
   \<not> stateDirty (fst (dispatch 240 whole_fpu holding_7 no_touch)) \<and>
   lastButton (fst (dispatch 240 whole_fpu holding_7 no_touch)) = - 1"
proof -
  have c: "calc_state (fst (dispatch 240 whole_fpu holding_7 (touch_at 70 100)))
             \<noteq> calc_state holding_7"
    "0 \<le> lastButton holding_7"
    by code_simp+
  have p: "read_pressed (touch_at 70 100)"
    "0 \<le> Calculator_FindButton 240 (read_x (touch_at 70 100)) (read_y (touch_at 70 100))"
    "Calculator_FindButton 240 (read_x (touch_at 70 100)) (read_y (touch_at 70 100))
       \<noteq> lastButton holding_7"
    by code_simp+
  have a: "activations (snd (dispatch 240 whole_fpu holding_7 (touch_at 70 100))) = [1]"
    by code_simp
  have r: "\<not> read_pressed no_touch" "\<not> stateDirty holding_7"
    by code_simp+
  from C9_dirty_on_activation_not_on_release [of "touch_at 70 100" 240 holding_7 whole_fpu]
    C9_dirty_on_activation_not_on_release [of no_touch 240 holding_7 whole_fpu] p a r c
  show ?thesis by simp
qed

end
